theory Spec2Isabelle
  imports Complex_Main "HOL-Library.Sublist"
begin

section \<open>The LongLoRA demo script (\<open>demo.py\<close>)\<close>

text \<open>
  The script loads a model and a tokenizer, builds the closure \<open>response\<close> and hands it to
  a form builder. The model, the tokenizer and the file system belong to external libraries;
  they are parameters of the embedding (the record \<open>env\<close>). Every call of one of them is
  recorded in a trace, so that "the generation routine is not called" is a statement about
  the trace. An exception of Python is a value \<open>Inl e\<close> of the result type.

  Python's \<open>str\<close> is modelled by \<open>string\<close>; a character stands for a code point
  below 256.
\<close>

subsection \<open>Python library operations used by the script\<close>

datatype py_error =
    FileNotFoundError
  | KeyError
  | ValueError
  | IndexError
  | TypeError
  | ZeroDivisionError
  | OverflowError
  | RuntimeError string

type_synonym token = nat

text \<open>
  \<open>s.split(sep)\<close> with an explicit separator: the occurrences of \<open>sep\<close> are found from
  the left and do not overlap; the result always has at least one element. An empty
  separator raises \<open>ValueError\<close>.
\<close>

function split_aux :: "'a list \<Rightarrow> 'a list \<Rightarrow> 'a list \<Rightarrow> 'a list list" where
  "split_aux sep acc [] = [rev acc]"
| "split_aux sep acc (c # cs) =
     (if sep \<noteq> [] \<and> prefix sep (c # cs)
      then rev acc # split_aux sep [] (drop (length sep) (c # cs))
      else split_aux sep (c # acc) cs)"
  by pat_completeness auto
termination
  by (relation "measure (\<lambda>(sep, acc, s). length s)") auto

definition py_split :: "'a list \<Rightarrow> 'a list \<Rightarrow> py_error + 'a list list" where
  "py_split s sep = (if sep = [] then Inl ValueError else Inr (split_aux sep [] s))"

text \<open>
  Subscription \<open>xs[i]\<close> of a list: positions \<open>0\<close> to \<open>len(xs) - 1\<close> are read from
  the front, positions \<open>- len(xs)\<close> to \<open>- 1\<close> from the back, and every other position
  raises \<open>IndexError\<close>.
\<close>

definition py_index :: "'a list \<Rightarrow> int \<Rightarrow> py_error + 'a" where
  "py_index xs i =
     (if 0 \<le> i \<and> i < int (length xs) then Inr (xs ! nat i)
      else if i < 0 \<and> - int (length xs) \<le> i then Inr (xs ! nat (int (length xs) + i))
      else Inl IndexError)"

text \<open>
  \<open>s.strip()\<close> removes the leading and trailing whitespace. Below 256 the code points
  that \<open>str.isspace\<close> accepts are 9 to 13, 28 to 32, 133 and 160.
\<close>

definition is_space :: "char \<Rightarrow> bool" where
  "is_space c =
     (let n = (of_char c :: nat)
      in (9 \<le> n \<and> n \<le> 13) \<or> (28 \<le> n \<and> n \<le> 32) \<or> n = 133 \<or> n = 160)"

definition py_strip :: "string \<Rightarrow> string" where
  "py_strip s = rev (dropWhile is_space (rev (dropWhile is_space s)))"

text \<open>\<open>"%d" % n\<close> for a length \<open>n\<close>: the decimal digits of \<open>n\<close>.\<close>

definition digit_char :: "nat \<Rightarrow> char" where
  "digit_char d = ''0123456789'' ! d"

fun str_of_nat :: "nat \<Rightarrow> string" where
  "str_of_nat n =
     (if n < 10 then [digit_char n] else str_of_nat (n div 10) @ [digit_char (n mod 10)])"

declare str_of_nat.simps [simp del]

text \<open>
  \<open>template.format_map(m)\<close>, for templates whose replacement fields are plain names
  (no conversion, no format specification, no attribute or index access): \<open>{{\<close> and
  \<open>}}\<close> stand for a brace, \<open>{name}\<close> is replaced by \<open>m[name]\<close>, a missing name raises
  \<open>KeyError\<close>, a brace without its partner raises \<open>ValueError\<close>. The text of a
  substituted value is not scanned again.
\<close>

function format_map :: "string \<Rightarrow> (string \<rightharpoonup> string) \<Rightarrow> py_error + string" where
  "format_map [] m = Inr []"
| "format_map (c # cs) m =
     (if c = CHR ''{'' then
        (if cs \<noteq> [] \<and> hd cs = CHR ''{''
         then map_sum id ((#) c) (format_map (tl cs) m)
         else if dropWhile (\<lambda>x. x \<noteq> CHR ''}'') cs = [] then Inl ValueError
         else (case m (takeWhile (\<lambda>x. x \<noteq> CHR ''}'') cs) of
                 None \<Rightarrow> Inl KeyError
               | Some v \<Rightarrow>
                   map_sum id ((@) v)
                     (format_map (tl (dropWhile (\<lambda>x. x \<noteq> CHR ''}'') cs)) m)))
      else if c = CHR ''}'' then
        (if cs \<noteq> [] \<and> hd cs = CHR ''}''
         then map_sum id ((#) c) (format_map (tl cs) m)
         else Inl ValueError)
      else map_sum id ((#) c) (format_map cs m))"
  by pat_completeness auto
termination
proof (relation "measure (\<lambda>(t, m). length t)")
  fix c :: char and cs :: string and m :: "string \<rightharpoonup> string" and v :: string
  have "length (dropWhile (\<lambda>x. x \<noteq> CHR ''}'') cs) \<le> length cs"
    by (rule length_dropWhile_le)
  then show "((tl (dropWhile (\<lambda>x. x \<noteq> CHR ''}'') cs), m), (c # cs, m))
               \<in> measure (\<lambda>(t, m). length t)"
    by simp
qed auto

subsection \<open>The external objects and the trace of calls\<close>

text \<open>The keyword arguments that \<open>build_generator\<close> captures and passes to \<open>model.generate\<close>.\<close>

record gen_kwargs =
  gen_temperature :: real
  gen_top_p :: real
  gen_max_gen_len :: int
  gen_use_cache :: bool

text \<open>
  \<open>open_file p\<close> is \<open>open(p).readlines()\<close>; \<open>tokenizer s\<close> is
  \<open>tokenizer(s, return_tensors="pt")['input_ids'][0]\<close>; \<open>model_generate ids kw\<close> is
  \<open>model.generate(...)[0]\<close>; \<open>tokenizer_decode\<close> is
  \<open>tokenizer.decode(_, skip_special_tokens=True)\<close>. Each of them may raise.
\<close>

record env =
  open_file :: "string \<Rightarrow> py_error + string list"
  tokenizer :: "string \<Rightarrow> py_error + token list"
  model_generate :: "token list \<Rightarrow> gen_kwargs \<Rightarrow> py_error + token list"
  tokenizer_decode :: "token list \<Rightarrow> py_error + string"

datatype event =
    Open string
  | Tokenize string
  | EmptyCache
  | Generate "token list" gen_kwargs
  | Decode "token list"
  | Print string

text \<open>The uploaded file object: the script reads only its attribute \<open>name\<close>.\<close>

record upload =
  name :: string

subsection \<open>The prompt template and the response closure\<close>

definition PROMPT_DICT :: "string \<rightharpoonup> string" where
  "PROMPT_DICT =
     [''prompt_no_input'' \<mapsto>
        ''Below is an instruction that describes a task. '' @
        ''Write a response that appropriately completes the request.\<newline>\<newline>'' @
        ''### Instruction:\<newline>{instruction}\<newline>\<newline>### Response:'']"

definition read_txt_file :: "env \<Rightarrow> string \<Rightarrow> py_error + string" where
  "read_txt_file e material_txt =
     (case open_file e material_txt of
        Inl err \<Rightarrow> Inl err
      | Inr lines \<Rightarrow> Inr (foldl (\<lambda>content line. content @ line) [] lines))"

definition response ::
  "env \<Rightarrow> gen_kwargs \<Rightarrow> upload option \<Rightarrow> string \<Rightarrow> (py_error + string) \<times> event list" where
  "response e kw material question =
     (case material of
        None \<Rightarrow> (Inr ''Only support txt file.'', [])
      | Some f \<Rightarrow>
     (case py_split (name f) ''.'' of
        Inl err \<Rightarrow> (Inl err, [])
      | Inr parts \<Rightarrow>
     (case py_index parts (- 1) of
        Inl err \<Rightarrow> (Inl err, [])
      | Inr ext \<Rightarrow>
     if ext \<noteq> ''txt'' then (Inr ''Only support txt file.'', [])
     else
     (case read_txt_file e (name f) of
        Inl err \<Rightarrow> (Inl err, [Open (name f)])
      | Inr content \<Rightarrow>
     (case PROMPT_DICT ''prompt_no_input'' of
        None \<Rightarrow> (Inl KeyError, [Open (name f)])
      | Some prompt_no_input \<Rightarrow>
     (case format_map prompt_no_input
             [''instruction'' \<mapsto> content @ ''\<newline>'' @ question] of
        Inl err \<Rightarrow> (Inl err, [Open (name f)])
      | Inr prompt \<Rightarrow>
     (case tokenizer e prompt of
        Inl err \<Rightarrow> (Inl err, [Open (name f), Tokenize prompt])
      | Inr input_ids \<Rightarrow>
     if length input_ids > 32768
     then (Inr (''This demo supports tokens less than 32768, while the current is '' @
                str_of_nat (length input_ids) @
                ''. Please use material with less tokens.''),
           [Open (name f), Tokenize prompt])
     else
     (case model_generate e input_ids kw of
        Inl err \<Rightarrow>
          (Inl err, [Open (name f), Tokenize prompt, EmptyCache, Generate input_ids kw])
      | Inr output \<Rightarrow>
     (case tokenizer_decode e output of
        Inl err \<Rightarrow>
          (Inl err, [Open (name f), Tokenize prompt, EmptyCache, Generate input_ids kw,
                     Decode output])
      | Inr out \<Rightarrow>
     (case py_split out prompt of
        Inl err \<Rightarrow>
          (Inl err, [Open (name f), Tokenize prompt, EmptyCache, Generate input_ids kw,
                     Decode output])
      | Inr pieces \<Rightarrow>
     (case py_index pieces 1 of
        Inl err \<Rightarrow>
          (Inl err, [Open (name f), Tokenize prompt, EmptyCache, Generate input_ids kw,
                     Decode output])
      | Inr piece \<Rightarrow>
          (Inr (py_strip piece),
           [Open (name f), Tokenize prompt, EmptyCache, Generate input_ids kw,
            Decode output, Print (py_strip piece)]))))))))))))"

definition build_generator ::
  "env \<Rightarrow> real \<Rightarrow> real \<Rightarrow> int \<Rightarrow> bool \<Rightarrow>
   upload option \<Rightarrow> string \<Rightarrow> (py_error + string) \<times> event list" where
  "build_generator e t p n u =
     response e \<lparr>gen_temperature = t, gen_top_p = p, gen_max_gen_len = n, gen_use_cache = u\<rparr>"

subsection \<open>The set-up in \<open>main\<close>\<close>

record args =
  base_model :: string
  cache_dir :: string
  context_size :: int
  flash_attn :: bool
  temperature :: real
  top_p :: real
  max_gen_len :: int

record rope =
  rope_type :: string
  rope_factor :: real

record config =
  max_position_embeddings :: "int option"
  rope_scaling :: "rope option"

text \<open>What \<open>main\<close> hands to the loaders: the configuration for the model and the
  \<open>model_max_length\<close> for the tokenizer.\<close>

record loader_args =
  model_config :: config
  model_max_length :: int

text \<open>
  The quotient \<open>context_size / orig_ctx_len\<close> of two Python integers is a double: the
  exact quotient rounded to the nearest number with a mantissa of 53 bits, a tie going to
  the even mantissa, with the exponent of the last mantissa bit not below \<open>- 1074\<close>
  (gradual underflow, down to zero). When the rounded magnitude reaches \<open>2 ^ 1024\<close> the
  division raises \<open>OverflowError\<close>; a zero divisor raises \<open>ZeroDivisionError\<close>.

  \<open>bit_length\<close> is \<open>int.bit_length\<close>. \<open>binary_exponent a b\<close> is the exponent \<open>e\<close> with
  \<open>2 ^ e \<le> a / b < 2 ^ (e + 1)\<close>, found from the bit lengths (lemma
  \<open>binary_exponent_bounds\<close>). \<open>nearest_double a b\<close> is the rounded magnitude.
\<close>

fun bit_length :: "nat \<Rightarrow> nat" where
  "bit_length n = (if n = 0 then 0 else Suc (bit_length (n div 2)))"

declare bit_length.simps [simp del]

definition round_half_even :: "real \<Rightarrow> int" where
  "round_half_even x =
     (if x - of_int \<lfloor>x\<rfloor> < 1 / 2 then \<lfloor>x\<rfloor>
      else if 1 / 2 < x - of_int \<lfloor>x\<rfloor> then \<lfloor>x\<rfloor> + 1
      else if even \<lfloor>x\<rfloor> then \<lfloor>x\<rfloor>
      else \<lfloor>x\<rfloor> + 1)"

definition binary_exponent :: "nat \<Rightarrow> nat \<Rightarrow> int" where
  "binary_exponent a b =
     (if 2 powi (int (bit_length a) - int (bit_length b)) * real b \<le> real a
      then int (bit_length a) - int (bit_length b)
      else int (bit_length a) - int (bit_length b) - 1)"

definition nearest_double :: "nat \<Rightarrow> nat \<Rightarrow> real" where
  "nearest_double a b =
     (let u = 2 powi (max (binary_exponent a b - 52) (- 1074))
      in of_int (round_half_even (real a / real b / u)) * u)"

definition true_divide :: "int \<Rightarrow> int \<Rightarrow> py_error + real" where
  "true_divide a b =
     (if b = 0 then Inl ZeroDivisionError
      else if a = 0 then Inr 0
      else
        (let r = nearest_double (nat \<bar>a\<bar>) (nat \<bar>b\<bar>)
         in if 2 ^ 1024 \<le> r then Inl OverflowError
            else Inr (if (a < 0) = (b < 0) then r else - r)))"

text \<open>
  \<open>orig_ctx_len\<close> is \<open>None\<close> when the attribute is absent. \<open>None\<close> and \<open>0\<close> are
  false in the condition of the \<open>if\<close>. \<open>math.ceil\<close> of a double is an integer, and
  \<open>float\<close> of that integer is exact (a double of magnitude \<open>2 ^ 52\<close> or more is an
  integer itself), so the factor is the ceiling of the double quotient. An exception of the
  division ends \<open>main\<close>. The comparison of an \<open>int\<close> with \<open>None\<close> in the tokenizer's
  argument raises \<open>TypeError\<close>.
\<close>

definition main :: "args \<Rightarrow> config \<Rightarrow> py_error + loader_args" where
  "main a cfg =
     (let orig_ctx_len = max_position_embeddings cfg
      in case (case orig_ctx_len of
                 None \<Rightarrow> Inr cfg
               | Some m \<Rightarrow>
                   if m \<noteq> 0 \<and> context_size a > m
                   then (case true_divide (context_size a) m of
                           Inl err \<Rightarrow> Inl err
                         | Inr x \<Rightarrow>
                             Inr (cfg\<lparr>rope_scaling :=
                                    Some \<lparr>rope_type = ''linear'',
                                          rope_factor = of_int \<lceil>x\<rceil>\<rparr>\<rparr>))
                   else Inr cfg) of
           Inl err \<Rightarrow> Inl err
         | Inr cfg' \<Rightarrow>
             (case orig_ctx_len of
                None \<Rightarrow> Inl TypeError
              | Some m \<Rightarrow>
                  Inr \<lparr>model_config = cfg',
                       model_max_length =
                         (if context_size a > m then context_size a else m)\<rparr>))"

subsection \<open>The formatted prompt and concrete environments\<close>

text \<open>
  The text that the closure passes to the tokenizer for a document \<open>d\<close> and a question
  \<open>q\<close>: the template with the field \<open>{instruction}\<close> replaced by \<open>d\<close>, a newline and
  \<open>q\<close>. Lemma \<open>format_map_prompt\<close> below shows that \<open>format_map\<close> computes it.
\<close>

definition instruction_prompt :: "string \<Rightarrow> string \<Rightarrow> string" where
  "instruction_prompt d q =
     ''Below is an instruction that describes a task. '' @
     ''Write a response that appropriately completes the request.\<newline>\<newline>'' @
     ''### Instruction:\<newline>'' @ (d @ ''\<newline>'' @ q) @ ''\<newline>\<newline>### Response:''"

text \<open>
  Environments for concrete runs: every file holds the two lines \<open>doc\<close> and \<open>ument\<close>,
  every text has \<open>n\<close> tokens, generation appends one token, and decoding yields \<open>out\<close>.
\<close>

definition fixed_env :: "nat \<Rightarrow> string \<Rightarrow> env" where
  "fixed_env n out =
     \<lparr>open_file = (\<lambda>p. Inr [''doc'', ''ument'']),
      tokenizer = (\<lambda>s. Inr (replicate n 0)),
      model_generate = (\<lambda>ids kw. Inr (ids @ [1])),
      tokenizer_decode = (\<lambda>ids. Inr out)\<rparr>"


text \<open>
  The reading of "the decoded output with the prompt prefix removed and surrounding
  whitespace stripped", for a decoded output that starts with the prompt: the characters of
  the prompt are dropped from the front and the rest is stripped.
\<close>

definition prompt_prefix_removed :: "string \<Rightarrow> string \<Rightarrow> string" where
  "prompt_prefix_removed prompt out = py_strip (drop (length prompt) out)"

definition default_kwargs :: gen_kwargs where
  "default_kwargs =
     \<lparr>gen_temperature = 6 / 10, gen_top_p = 9 / 10, gen_max_gen_len = 4096,
      gen_use_cache = True\<rparr>"

section \<open>Properties\<close>

subsection \<open>Auxiliary facts about the library operations\<close>

lemma split_aux_not_Nil: "split_aux sep acc s \<noteq> []"
  by (induction sep acc s rule: split_aux.induct) auto

lemma py_index_last: "xs \<noteq> [] \<Longrightarrow> py_index xs (- 1) = Inr (last xs)"
  by (cases xs rule: rev_cases) (auto simp: py_index_def nth_append)

lemma py_index_1: "py_index xs 1 = (if 2 \<le> length xs then Inr (xs ! 1) else Inl IndexError)"
  by (auto simp: py_index_def)

lemma foldl_append_concat: "foldl (\<lambda>content line. content @ line) a ls = a @ concat ls"
  by (induction ls arbitrary: a) auto

lemma length_split_aux:
  "sep \<noteq> [] \<Longrightarrow> (2 \<le> length (split_aux sep acc s)) = sublist sep s"
proof (induction sep acc s rule: split_aux.induct)
  case (1 sep acc)
  then show ?case by simp
next
  case (2 sep acc c cs)
  show ?case
  proof (cases "prefix sep (c # cs)")
    case True
    have "split_aux sep [] (drop (length sep) (c # cs)) \<noteq> []"
      by (rule split_aux_not_Nil)
    then have "1 \<le> length (split_aux sep [] (drop (length sep) (c # cs)))"
      by (cases "split_aux sep [] (drop (length sep) (c # cs))") auto
    moreover have "sublist sep (c # cs)"
      using True by (simp add: sublist_Cons_right)
    ultimately show ?thesis using True "2.prems" by simp
  next
    case False
    then show ?thesis using 2 by (simp add: sublist_Cons_right)
  qed
qed

lemma last_split_aux_single:
  "last (split_aux [c] acc s) =
     (if c \<in> set s then rev (takeWhile (\<lambda>x. x \<noteq> c) (rev s)) else rev acc @ s)"
proof (induction s arbitrary: acc)
  case Nil
  then show ?case by simp
next
  case (Cons x xs)
  show ?case
  proof (cases "x = c")
    case True
    have l: "last (split_aux [c] acc (x # xs)) = last (split_aux [c] [] xs)"
      using True split_aux_not_Nil [of "[c]" "[]" xs] by simp
    show ?thesis
    proof (cases "c \<in> set xs")
      case in_xs: True
      then show ?thesis
        using l True Cons.IH [of "[]"] by (simp add: takeWhile_tail)
    next
      case out_xs: False
      then have tw: "takeWhile (\<lambda>x. x \<noteq> c) (rev xs) = rev xs"
        by (intro takeWhile_eq_all_conv [THEN iffD2]) auto
      show ?thesis
        using l True out_xs Cons.IH [of "[]"]
        by (simp add: takeWhile_tail tw)
    qed
  next
    case False
    then show ?thesis
      using Cons.IH [of "x # acc"]
      by (auto simp: takeWhile_tail)
  qed
qed

lemma ext_txt_iff:
  "last (split_aux ''.'' [] s) = ''txt'' \<longleftrightarrow> suffix ''.txt'' s \<or> s = ''txt''"
proof (cases "CHR ''.'' \<in> set s")
  case True
  let ?P = "\<lambda>x. x \<noteq> CHR ''.''"
  have dw: "dropWhile ?P (rev s) \<noteq> []"
    using True by auto
  have hdw: "hd (dropWhile ?P (rev s)) = CHR ''.''"
    using hd_dropWhile [OF dw] by simp
  have decomp: "rev s = takeWhile ?P (rev s) @ CHR ''.'' # tl (dropWhile ?P (rev s))"
    using dw hdw by (metis takeWhile_dropWhile_id list.collapse)
  have "rev (takeWhile ?P (rev s)) = ''txt'' \<longleftrightarrow> suffix ''.txt'' s"
  proof
    assume a: "rev (takeWhile ?P (rev s)) = ''txt''"
    have "s = rev (rev s)" by simp
    also have "\<dots> = rev (tl (dropWhile ?P (rev s))) @ CHR ''.'' # rev (takeWhile ?P (rev s))"
      by (subst decomp) simp
    finally have "s = rev (tl (dropWhile ?P (rev s))) @ ''.txt''"
      using a by simp
    then show "suffix ''.txt'' s"
      by (metis suffixI)
  next
    assume "suffix ''.txt'' s"
    then obtain p where "s = p @ ''.txt''"
      by (auto simp: suffix_def)
    then show "rev (takeWhile ?P (rev s)) = ''txt''"
      by simp
  qed
  moreover have "s \<noteq> ''txt''"
    using True by auto
  ultimately show ?thesis
    using True by (simp add: last_split_aux_single)
next
  case False
  then have "\<not> suffix ''.txt'' s"
    by (auto simp: suffix_def)
  then show ?thesis
    using False by (simp add: last_split_aux_single)
qed

lemma split_aux_at_sep:
  assumes "sep \<noteq> []"
  shows "split_aux sep acc (sep @ rest) = rev acc # split_aux sep [] rest"
proof -
  obtain c cs where cs: "sep @ rest = c # cs"
    using assms by (cases sep) auto
  have "prefix sep (c # cs)"
    using cs by (metis prefixI)
  moreover have "drop (length sep) (c # cs) = rest"
    using cs by (metis append_eq_conv_conj)
  ultimately show ?thesis
    using assms cs by simp
qed

lemma hd_split_aux:
  assumes "sep \<noteq> []"
  shows "\<exists>a. hd (split_aux sep acc s) = rev acc @ a \<and>
           (if sublist sep s
            then (\<exists>b. s = a @ sep @ b) \<and> \<not> sublist sep (a @ butlast sep)
            else a = s)"
  using assms
proof (induction sep acc s rule: split_aux.induct)
  case (1 sep acc)
  then show ?case by simp
next
  case (2 sep acc c cs)
  show ?case
  proof (cases "prefix sep (c # cs)")
    case True
    then obtain b where b: "c # cs = sep @ b"
      by (auto simp: prefix_def)
    have "\<not> sublist sep (butlast sep)"
    proof
      assume "sublist sep (butlast sep)"
      then have "length sep \<le> length (butlast sep)"
        by (rule sublist_length_le)
      moreover have "0 < length sep"
        using "2.prems" by simp
      ultimately show False
        by (simp only: length_butlast)
    qed
    moreover have "sublist sep (c # cs)"
      using True by (simp add: sublist_Cons_right)
    ultimately show ?thesis
      using True "2.prems" b by (intro exI [of _ "[]"]) (auto simp: split_aux_at_sep)
  next
    case False
    then obtain a where a: "hd (split_aux sep (c # acc) cs) = rev (c # acc) @ a"
      and r: "if sublist sep cs
              then (\<exists>b. cs = a @ sep @ b) \<and> \<not> sublist sep (a @ butlast sep)
              else a = cs"
      using "2.IH"(2) "2.prems" by blast
    have sub: "sublist sep (c # cs) = sublist sep cs"
      using False by (simp add: sublist_Cons_right)
    show ?thesis
    proof (cases "sublist sep cs")
      case True
      then obtain b where b: "cs = a @ sep @ b" and n: "\<not> sublist sep (a @ butlast sep)"
        using r by auto
      have "\<not> prefix sep (c # a @ butlast sep)"
      proof
        assume p: "prefix sep (c # a @ butlast sep)"
        have "prefix (c # a @ butlast sep) (c # a @ sep @ b)"
          by (simp add: prefix_def) (metis append_butlast_last_id "2.prems" append_Cons append_assoc)
        then have "prefix sep (c # cs)"
          using p b by (metis prefix_order.trans)
        then show False using False by simp
      qed
      then have "\<not> sublist sep ((c # a) @ butlast sep)"
        using n by (simp add: sublist_Cons_right)
      moreover have "c # cs = (c # a) @ sep @ b"
        using b by simp
      ultimately show ?thesis
        using False a sub True by (intro exI [of _ "c # a"]) auto
    next
      case nsub: False
      then show ?thesis
        using False a r sub by (intro exI [of _ "c # a"]) auto
    qed
  qed
qed


lemma format_map_prompt:
  "PROMPT_DICT ''prompt_no_input'' = Some t \<Longrightarrow>
   format_map t [''instruction'' \<mapsto> d @ ''\<newline>'' @ q] = Inr (instruction_prompt d q)"
  by (auto simp: PROMPT_DICT_def instruction_prompt_def)

lemma format_map_prompt_Cons:
  "PROMPT_DICT ''prompt_no_input'' = Some t \<Longrightarrow>
   format_map t [''instruction'' \<mapsto> d @ CHR ''\<newline>'' # q] = Inr (instruction_prompt d q)"
  using format_map_prompt [of t d q] by simp

lemma PROMPT_DICT_defined: "\<exists>t. PROMPT_DICT ''prompt_no_input'' = Some t"
  by (simp add: PROMPT_DICT_def)

subsection \<open>Auxiliary facts about the division of integers\<close>

lemma bit_length_bounds:
  "0 < n \<Longrightarrow> 2 ^ bit_length n \<le> 2 * n \<and> n < 2 ^ bit_length n"
proof (induction n rule: bit_length.induct)
  case (1 n)
  show ?case
  proof (cases "n div 2 = 0")
    case True
    then have "n = 1"
      using "1.prems" by presburger
    then show ?thesis
      by (simp add: bit_length.simps)
  next
    case False
    then have ih: "2 ^ bit_length (n div 2) \<le> 2 * (n div 2) \<and> n div 2 < 2 ^ bit_length (n div 2)"
      using "1.IH" "1.prems" by simp
    have bl: "bit_length n = Suc (bit_length (n div 2))"
      using "1.prems" by (subst bit_length.simps) simp
    define p where "p = (2::nat) ^ bit_length (n div 2)"
    have pw: "2 ^ bit_length n = 2 * p"
      by (simp add: bl p_def)
    have "2 * (n div 2) \<le> n" and "n < 2 * (n div 2) + 2"
      by presburger+
    moreover have "p \<le> 2 * (n div 2)" and "n div 2 < p"
      using ih by (simp_all add: p_def)
    ultimately have "2 * p \<le> 2 * n \<and> n < 2 * p"
      by linarith
    then show ?thesis
      by (simp only: pw)
  qed
qed

lemma binary_exponent_bounds:
  assumes "0 < a" and "0 < b"
  shows "2 powi binary_exponent a b \<le> real a / real b"
    and "real a / real b < 2 powi (binary_exponent a b + 1)"
proof -
  let ?d = "int (bit_length a) - int (bit_length b)"
  have a: "2 ^ bit_length a \<le> 2 * real a" "real a < 2 ^ bit_length a"
    using bit_length_bounds [OF assms(1)]
    by (metis of_nat_le_iff of_nat_mult of_nat_numeral of_nat_power,
        metis of_nat_less_iff of_nat_numeral of_nat_power)
  have b: "2 ^ bit_length b \<le> 2 * real b" "real b < 2 ^ bit_length b"
    using bit_length_bounds [OF assms(2)]
    by (metis of_nat_le_iff of_nat_mult of_nat_numeral of_nat_power,
        metis of_nat_less_iff of_nat_numeral of_nat_power)
  have d: "(2::real) powi ?d = 2 ^ bit_length a / 2 ^ bit_length b"
    by (simp add: power_int_diff)
  have rb: "0 < real b"
    using assms(2) by simp
  have upper: "real a / real b < 2 powi (?d + 1)"
  proof -
    have "real a * 2 ^ bit_length b < 2 ^ bit_length a * (2 * real b)"
      using a(2) b(1) rb
      by (meson mult_less_le_imp_less of_nat_0_le_iff zero_less_numeral zero_less_power)
    then have "real a / real b < 2 ^ bit_length a * 2 / 2 ^ bit_length b"
      using rb by (simp add: field_simps)
    then show ?thesis
      by (simp add: power_int_add d)
  qed
  have lower: "2 powi (?d - 1) \<le> real a / real b"
  proof -
    have "2 ^ bit_length a * real b \<le> 2 * real a * 2 ^ bit_length b"
      using a(1) b(2) by (intro mult_mono) auto
    then have "2 ^ bit_length a / (2 * 2 ^ bit_length b) \<le> real a / real b"
      using rb by (simp add: field_simps)
    moreover have "(2::real) powi (?d - 1) = 2 ^ bit_length a / (2 * 2 ^ bit_length b)"
      by (simp add: power_int_diff)
    ultimately show ?thesis
      by simp
  qed
  show "2 powi binary_exponent a b \<le> real a / real b"
  proof (cases "2 powi ?d * real b \<le> real a")
    case True
    then have "2 powi ?d \<le> real a / real b"
      using rb by (simp add: field_simps)
    then show ?thesis
      using True by (simp add: binary_exponent_def)
  next
    case False
    then show ?thesis
      using lower by (simp add: binary_exponent_def)
  qed
  show "real a / real b < 2 powi (binary_exponent a b + 1)"
  proof (cases "2 powi ?d * real b \<le> real a")
    case True
    then show ?thesis
      using upper by (simp add: binary_exponent_def)
  next
    case False
    then have "real a / real b < 2 powi ?d"
      using rb by (simp add: field_simps)
    then show ?thesis
      using False by (simp add: binary_exponent_def)
  qed
qed

lemma round_half_even_error: "\<bar>of_int (round_half_even x) - x\<bar> \<le> 1 / 2"
  unfolding round_half_even_def by (auto simp: abs_if) linarith+

lemma round_half_even_of_int: "round_half_even (of_int k) = k"
  by (simp add: round_half_even_def)

lemma ceiling_near_quotient:
  fixes x :: real
  assumes "b \<noteq> 0"
    and near: "\<bar>x - of_int a / of_int b\<bar> < 1 / \<bar>of_int b\<bar>"
    and exact: "b dvd a \<Longrightarrow> x = of_int a / of_int b"
  shows "\<lceil>x\<rceil> = \<lceil>of_int a / of_int b :: real\<rceil>"
proof (cases "b dvd a")
  case True
  then show ?thesis
    using exact by simp
next
  case False
  let ?y = "of_int a / of_int b :: real"
  have bpos: "0 < \<bar>real_of_int b\<bar>"
    using assms(1) by simp
  have apart: "1 / \<bar>real_of_int b\<bar> \<le> \<bar>?y - of_int k\<bar>" for k
  proof -
    have "a - k * b \<noteq> 0"
      using False by (metis dvd_triv_right eq_iff_diff_eq_0)
    then have "1 \<le> \<bar>a - k * b\<bar>"
      by linarith
    then have "1 \<le> \<bar>real_of_int (a - k * b)\<bar>"
      by (metis of_int_1_le_iff of_int_abs)
    moreover have "?y - of_int k = real_of_int (a - k * b) / of_int b"
      using assms(1) by (simp add: field_simps)
    ultimately show ?thesis
      using bpos by (simp add: divide_le_cancel)
  qed
  define k where "k = \<lfloor>?y\<rfloor>"
  have k: "of_int k \<le> ?y" "?y < of_int k + 1"
    unfolding k_def by linarith+
  have lo: "1 / \<bar>real_of_int b\<bar> \<le> ?y - of_int k"
    using apart [of k] k(1) by linarith
  have hi: "1 / \<bar>real_of_int b\<bar> \<le> of_int (k + 1) - ?y"
    using apart [of "k + 1"] k(2) by simp
  have "of_int k < x" and "x < of_int k + 1"
    using near lo hi by (simp_all add: abs_less_iff)
  then have "\<lceil>x\<rceil> = k + 1"
    by (intro ceiling_unique) simp_all
  moreover have "of_int k < ?y"
    using lo bpos by (smt (verit) divide_pos_pos)
  then have "\<lceil>?y\<rceil> = k + 1"
    using k(2) by (intro ceiling_unique) simp_all
  ultimately show ?thesis
    by simp
qed

lemma nearest_double_error:
  "\<bar>nearest_double a b - real a / real b\<bar>
     \<le> 2 powi (max (binary_exponent a b - 52) (- 1074)) / 2"
proof -
  define u :: real where "u = 2 powi (max (binary_exponent a b - 52) (- 1074))"
  have u: "0 < u"
    by (simp add: u_def)
  define z where "z = real a / real b / u"
  define m :: real where "m = of_int (round_half_even z)"
  have zu: "z * u = real a / real b"
    using u by (simp add: z_def)
  have "\<bar>m - z\<bar> \<le> 1 / 2"
    unfolding m_def by (rule round_half_even_error)
  then have "\<bar>m - z\<bar> * u \<le> 1 / 2 * u"
    using u by (intro mult_right_mono) simp_all
  moreover have "\<bar>m - z\<bar> * u = \<bar>(m - z) * u\<bar>"
    using u by (simp add: abs_mult)
  moreover have "(m - z) * u = m * u - real a / real b"
    by (simp add: left_diff_distrib zu)
  ultimately have "\<bar>m * u - real a / real b\<bar> \<le> u / 2"
    by simp
  moreover have "nearest_double a b = m * u"
    by (simp add: nearest_double_def Let_def u_def m_def z_def)
  ultimately show ?thesis
    by (simp add: u_def)
qed

lemma quotient_le_numerator: "0 < b \<Longrightarrow> real a / real b \<le> real a"
proof -
  assume "0 < b"
  then have "1 \<le> real b"
    by simp
  then have "real a / real b \<le> real a / 1"
    by (intro divide_left_mono) simp_all
  then show ?thesis
    by simp
qed

lemma binary_exponent_le_52:
  assumes "0 < a" and "0 < b" and "real a < 2 ^ 53"
  shows "binary_exponent a b \<le> 52"
proof (rule ccontr)
  assume "\<not> binary_exponent a b \<le> 52"
  then have "53 \<le> binary_exponent a b"
    by simp
  then have "(2::real) powi 53 \<le> 2 powi binary_exponent a b"
    by (intro power_int_increasing) simp_all
  also have "\<dots> \<le> real a / real b"
    using binary_exponent_bounds(1) [OF assms(1,2)] .
  also have "\<dots> \<le> real a"
    using assms(2) by (rule quotient_le_numerator)
  finally show False
    using assms(3) by simp
qed

lemma nearest_double_below_limit:
  assumes "0 < a" and "0 < b" and "real a < 2 ^ 53"
  shows "nearest_double a b < 2 ^ 1024"
proof -
  define s where "s = max (binary_exponent a b - 52) (- 1074)"
  have "s \<le> 0"
    using binary_exponent_le_52 [OF assms] by (simp add: s_def)
  then have "(2::real) powi s \<le> 2 powi 0"
    by (intro power_int_increasing) simp_all
  then have u: "(2::real) powi s / 2 \<le> 1"
    by simp
  have q: "real a / real b \<le> real a"
    using assms(2) by (rule quotient_le_numerator)
  have "\<bar>nearest_double a b - real a / real b\<bar> \<le> 2 powi s / 2"
    unfolding s_def by (rule nearest_double_error)
  then have "nearest_double a b \<le> real a + 1"
    using u q by linarith
  also have "\<dots> < 2 ^ 53 + 1"
    using assms(3) by simp
  also have "\<dots> < (2::real) ^ 1024"
    by simp
  finally show ?thesis .
qed

lemma true_divide_returns:
  assumes "b \<noteq> 0" and "\<bar>a\<bar> < 2 ^ 53"
  shows "\<exists>x. true_divide a b = Inr x"
proof (cases "a = 0")
  case True
  then show ?thesis
    using assms(1) by (simp add: true_divide_def)
next
  case False
  have "real (nat \<bar>a\<bar>) < 2 ^ 53"
    using assms(2) by (metis nat_less_numeral_power_cancel_iff of_nat_less_numeral_power_cancel_iff)
  then have "nearest_double (nat \<bar>a\<bar>) (nat \<bar>b\<bar>) < 2 ^ 1024"
    using False assms(1) by (intro nearest_double_below_limit) simp_all
  then show ?thesis
    using False assms(1) by (simp add: true_divide_def Let_def)
qed

lemma nearest_double_close:
  assumes "0 < a" and "0 < b" and "real a < 2 ^ 53" and "real b < 2 ^ 53"
  shows "\<bar>nearest_double a b - real a / real b\<bar> < 1 / real b"
proof -
  define e where "e = binary_exponent a b"
  have rb: "0 < real b"
    using assms(2) by simp
  have "1 \<le> real a"
    using assms(1) by simp
  then have ge: "1 / real b \<le> real a / real b"
    using rb by (intro divide_right_mono) simp_all
  have "1 / 2 ^ 53 < 1 / real b"
    using assms(4) rb by (intro divide_strict_left_mono) simp_all
  from this ge have "1 / 2 ^ 53 < real a / real b"
    by (rule less_le_trans)
  moreover have "(2::real) powi (- 53) = 1 / 2 ^ 53"
    by (simp add: power_int_minus_divide)
  ultimately have "(2::real) powi (- 53) < real a / real b"
    by (simp only:)
  also have "\<dots> < 2 powi (e + 1)"
    unfolding e_def using binary_exponent_bounds(2) [OF assms(1,2)] .
  finally have low: "(2::real) powi (- 53) < 2 powi (e + 1)" .
  have "- 53 < e + 1"
  proof (rule ccontr)
    assume "\<not> - 53 < e + 1"
    then have "e + 1 \<le> - 53"
      by simp
    then have "(2::real) powi (e + 1) \<le> 2 powi (- 53)"
      by (intro power_int_increasing) simp_all
    then show False
      using low by simp
  qed
  then have s: "max (e - 52) (- 1074) = e - 52"
    by simp
  have "\<bar>nearest_double a b - real a / real b\<bar> \<le> 2 powi (e - 52) / 2"
    using nearest_double_error [of a b] by (simp add: e_def [symmetric] s)
  also have "\<dots> = 2 powi e / 2 ^ 53"
    by (simp add: power_int_diff)
  also have "\<dots> \<le> real a / real b / 2 ^ 53"
    unfolding e_def using binary_exponent_bounds(1) [OF assms(1,2)]
    by (intro divide_right_mono) simp_all
  also have "\<dots> = real a / 2 ^ 53 / real b"
    by simp
  also have "\<dots> < 1 / real b"
    using assms(3) rb by (intro divide_strict_right_mono) simp_all
  finally show ?thesis .
qed

lemma nearest_double_exact:
  assumes "0 < a" and "0 < b" and "real a < 2 ^ 53" and "b dvd a"
  shows "nearest_double a b = real a / real b"
proof -
  obtain n where n: "a = b * n"
    using assms(4) by (auto simp: dvd_def)
  have q: "real a / real b = real n"
    using assms(2) by (simp add: n)
  define s where "s = max (binary_exponent a b - 52) (- 1074)"
  define t where "t = nat (- s)"
  have "s \<le> 0"
    using binary_exponent_le_52 [OF assms(1-3)] by (simp add: s_def)
  then have "s = - int t"
    by (simp add: t_def)
  then have u: "(2::real) powi s = 1 / 2 ^ t"
    by (simp add: power_int_minus_divide)
  have "real n / (1 / 2 ^ t) = real_of_int (int n * 2 ^ t)"
    by simp
  then have "round_half_even (real n / (1 / 2 ^ t)) = int n * 2 ^ t"
    by (simp only: round_half_even_of_int)
  then have "nearest_double a b = real_of_int (int n * 2 ^ t) * (1 / 2 ^ t)"
    by (simp add: nearest_double_def Let_def s_def [symmetric] u q)
  also have "\<dots> = real n"
    by simp
  finally show ?thesis
    by (simp add: q)
qed

lemma signed_distance:
  fixes r q :: real
  shows "\<bar>(if c then r else - r) - (if c then q else - q)\<bar> = \<bar>r - q\<bar>"
  by (cases c) (simp_all add: abs_if)

lemma true_divide_small:
  assumes "b \<noteq> 0" and "\<bar>a\<bar> < 2 ^ 53" and "\<bar>b\<bar> < 2 ^ 53"
  shows "\<exists>x. true_divide a b = Inr x \<and> \<lceil>x\<rceil> = \<lceil>real_of_int a / real_of_int b\<rceil>"
proof (cases "a = 0")
  case True
  then show ?thesis
    using assms(1) by (simp add: true_divide_def)
next
  case False
  let ?A = "nat \<bar>a\<bar>" and ?B = "nat \<bar>b\<bar>"
  let ?r = "nearest_double ?A ?B"
  let ?x = "if (a < 0) = (b < 0) then ?r else - ?r"
  let ?y = "real_of_int a / real_of_int b"
  have pos: "0 < ?A" "0 < ?B"
    using False assms(1) by simp_all
  have ra: "real ?A = \<bar>real_of_int a\<bar>" and rb: "real ?B = \<bar>real_of_int b\<bar>"
    by simp_all
  have small: "real ?A < 2 ^ 53" "real ?B < 2 ^ 53"
    using assms(2,3)
    by (metis nat_less_numeral_power_cancel_iff of_nat_less_numeral_power_cancel_iff)+
  have "?r < 2 ^ 1024"
    using pos small(1) by (rule nearest_double_below_limit)
  then have val: "true_divide a b = Inr ?x"
    using False assms(1) by (simp add: true_divide_def Let_def)
  have y: "?y = (if (a < 0) = (b < 0) then real ?A / real ?B else - (real ?A / real ?B))"
    using False assms(1) by (auto simp: ra rb abs_if)
  have "\<bar>?x - ?y\<bar> = \<bar>?r - real ?A / real ?B\<bar>"
    unfolding y by (rule signed_distance)
  also have "\<dots> < 1 / real ?B"
    using pos small by (rule nearest_double_close)
  finally have near: "\<bar>?x - ?y\<bar> < 1 / \<bar>real_of_int b\<bar>"
    by (simp only: rb)
  have exact: "?x = ?y" if "b dvd a"
  proof -
    have "?B dvd ?A"
      using that by (simp add: nat_abs_dvd_iff)
    then have "?r = real ?A / real ?B"
      using pos small(1) by (intro nearest_double_exact)
    then show ?thesis
      by (simp add: y)
  qed
  have "\<lceil>?x\<rceil> = \<lceil>?y\<rceil>"
    using assms(1) near exact by (rule ceiling_near_quotient)
  then show ?thesis
    using val by simp
qed

lemma true_divide_error: "true_divide a b = Inl err \<Longrightarrow> b \<noteq> 0 \<Longrightarrow> err = OverflowError"
  by (auto simp: true_divide_def Let_def split: if_splits)

lemma true_divide_overflow:
  assumes "b \<noteq> 0" and "2 ^ 1024 * \<bar>b\<bar> \<le> \<bar>a\<bar>"
  shows "true_divide a b = Inl OverflowError"
proof -
  let ?A = "nat \<bar>a\<bar>" and ?B = "nat \<bar>b\<bar>"
  define e where "e = binary_exponent ?A ?B"
  have nz: "a \<noteq> 0"
    using assms by auto
  have pos: "0 < ?A" "0 < ?B"
    using nz assms(1) by simp_all
  have rb: "0 < real ?B"
    using pos(2) by simp
  have "real_of_int (2 ^ 1024 * \<bar>b\<bar>) \<le> real_of_int \<bar>a\<bar>"
    using assms(2) by (simp only: of_int_le_iff)
  then have "2 ^ 1024 * real ?B \<le> real ?A"
    by simp
  then have big: "2 ^ 1024 \<le> real ?A / real ?B"
    using rb by (simp add: pos_le_divide_eq)
  have "(2::real) powi 1024 \<le> real ?A / real ?B"
    using big by simp
  also have "\<dots> < 2 powi (e + 1)"
    unfolding e_def using binary_exponent_bounds(2) [OF pos] .
  finally have "(2::real) powi 1024 < 2 powi (e + 1)" .
  have e: "1024 \<le> e"
  proof (rule ccontr)
    assume "\<not> 1024 \<le> e"
    then have "e + 1 \<le> 1024"
      by simp
    then have "(2::real) powi (e + 1) \<le> 2 powi 1024"
      by (intro power_int_increasing) simp_all
    then show False
      using \<open>(2::real) powi 1024 < 2 powi (e + 1)\<close> by simp
  qed
  then have s: "max (e - 52) (- 1074) = e - 52"
    by simp
  define u :: real where "u = 2 powi (e - 52)"
  have u: "0 < u"
    by (simp add: u_def)
  have eu: "(2::real) powi e = 2 ^ 52 * u"
    by (simp add: u_def power_int_diff)
  define q where "q = real ?A / real ?B"
  define z where "z = q / u"
  have "2 ^ 52 * u \<le> q"
    unfolding eu [symmetric] e_def q_def using binary_exponent_bounds(1) [OF pos] .
  then have z: "2 ^ 52 \<le> z"
    unfolding z_def using u by (simp only: pos_le_divide_eq)
  have "\<bar>real_of_int (round_half_even z) - z\<bar> \<le> 1 / 2"
    by (rule round_half_even_error)
  then have "2 ^ 52 - 1 < real_of_int (round_half_even z)"
    using z by linarith
  then have "real_of_int (2 ^ 52 - 1) < real_of_int (round_half_even z)"
    by simp
  then have "2 ^ 52 - 1 < round_half_even z"
    by (simp only: of_int_less_iff)
  then have "2 ^ 52 \<le> round_half_even z"
    by simp
  then have "real_of_int (2 ^ 52) \<le> real_of_int (round_half_even z)"
    by (simp only: of_int_le_iff)
  then have "2 ^ 52 * u \<le> real_of_int (round_half_even z) * u"
    using u by (intro mult_right_mono) simp_all
  moreover have "nearest_double ?A ?B = real_of_int (round_half_even z) * u"
    by (simp add: nearest_double_def Let_def e_def [symmetric] s u_def z_def q_def)
  moreover have "(2::real) ^ 1024 \<le> 2 ^ 52 * u"
    unfolding eu [symmetric] using e power_int_increasing [of 1024 e "2::real"] by simp
  ultimately have "2 ^ 1024 \<le> nearest_double ?A ?B"
    by linarith
  then show ?thesis
    using nz assms(1) by (simp add: true_divide_def Let_def)
qed

subsection \<open>The paths through the response closure\<close>

lemmas response_path =
  response_def py_split_def py_index_last py_index_1 split_aux_not_Nil read_txt_file_def
  foldl_append_concat format_map_prompt_Cons length_split_aux

lemma response_reject:
  assumes "last (split_aux ''.'' [] (name f)) \<noteq> ''txt''"
  shows "response e kw (Some f) q = (Inr ''Only support txt file.'', [])"
  using assms by (simp add: response_path)

lemma response_open_error:
  assumes "last (split_aux ''.'' [] (name f)) = ''txt''"
    and "open_file e (name f) = Inl err"
  shows "response e kw (Some f) q = (Inl err, [Open (name f)])"
  using assms by (simp add: response_path)

lemma response_tokenizer_error:
  assumes "last (split_aux ''.'' [] (name f)) = ''txt''"
    and "open_file e (name f) = Inr lines"
    and "tokenizer e (instruction_prompt (concat lines) q) = Inl err"
  shows "response e kw (Some f) q =
           (Inl err, [Open (name f), Tokenize (instruction_prompt (concat lines) q)])"
proof -
  obtain t where t: "PROMPT_DICT ''prompt_no_input'' = Some t"
    using PROMPT_DICT_defined by blast
  show ?thesis
    using assms t by (simp add: response_path)
qed

lemma response_too_long:
  assumes "last (split_aux ''.'' [] (name f)) = ''txt''"
    and "open_file e (name f) = Inr lines"
    and "tokenizer e (instruction_prompt (concat lines) q) = Inr ids"
    and "32768 < length ids"
  shows "response e kw (Some f) q =
           (Inr (''This demo supports tokens less than 32768, while the current is '' @
                 str_of_nat (length ids) @ ''. Please use material with less tokens.''),
            [Open (name f), Tokenize (instruction_prompt (concat lines) q)])"
proof -
  obtain t where t: "PROMPT_DICT ''prompt_no_input'' = Some t"
    using PROMPT_DICT_defined by blast
  show ?thesis
    using assms t by (simp add: response_path)
qed

lemma response_generate_error:
  assumes "last (split_aux ''.'' [] (name f)) = ''txt''"
    and "open_file e (name f) = Inr lines"
    and "tokenizer e (instruction_prompt (concat lines) q) = Inr ids"
    and "length ids \<le> 32768"
    and "model_generate e ids kw = Inl err"
  shows "response e kw (Some f) q =
           (Inl err, [Open (name f), Tokenize (instruction_prompt (concat lines) q),
                      EmptyCache, Generate ids kw])"
proof -
  obtain t where t: "PROMPT_DICT ''prompt_no_input'' = Some t"
    using PROMPT_DICT_defined by blast
  show ?thesis
    using assms t by (simp add: response_path)
qed

lemma response_decode_error:
  assumes "last (split_aux ''.'' [] (name f)) = ''txt''"
    and "open_file e (name f) = Inr lines"
    and "tokenizer e (instruction_prompt (concat lines) q) = Inr ids"
    and "length ids \<le> 32768"
    and "model_generate e ids kw = Inr output"
    and "tokenizer_decode e output = Inl err"
  shows "response e kw (Some f) q =
           (Inl err, [Open (name f), Tokenize (instruction_prompt (concat lines) q),
                      EmptyCache, Generate ids kw, Decode output])"
proof -
  obtain t where t: "PROMPT_DICT ''prompt_no_input'' = Some t"
    using PROMPT_DICT_defined by blast
  show ?thesis
    using assms t by (simp add: response_path)
qed

lemma instruction_prompt_not_Nil: "instruction_prompt d q \<noteq> []"
  by (simp add: instruction_prompt_def)

lemma response_index_error:
  assumes "last (split_aux ''.'' [] (name f)) = ''txt''"
    and "open_file e (name f) = Inr lines"
    and "tokenizer e (instruction_prompt (concat lines) q) = Inr ids"
    and "length ids \<le> 32768"
    and "model_generate e ids kw = Inr output"
    and "tokenizer_decode e output = Inr out"
    and "\<not> sublist (instruction_prompt (concat lines) q) out"
  shows "response e kw (Some f) q =
           (Inl IndexError, [Open (name f), Tokenize (instruction_prompt (concat lines) q),
                      EmptyCache, Generate ids kw, Decode output])"
proof -
  obtain t where t: "PROMPT_DICT ''prompt_no_input'' = Some t"
    using PROMPT_DICT_defined by blast
  show ?thesis
    using assms t by (simp add: response_path instruction_prompt_not_Nil)
qed

lemma response_generated:
  assumes "last (split_aux ''.'' [] (name f)) = ''txt''"
    and "open_file e (name f) = Inr lines"
    and "tokenizer e (instruction_prompt (concat lines) q) = Inr ids"
    and "length ids \<le> 32768"
    and "model_generate e ids kw = Inr output"
    and "tokenizer_decode e output = Inr out"
    and "sublist (instruction_prompt (concat lines) q) out"
  shows "response e kw (Some f) q =
           (Inr (py_strip (split_aux (instruction_prompt (concat lines) q) [] out ! 1)),
            [Open (name f), Tokenize (instruction_prompt (concat lines) q),
             EmptyCache, Generate ids kw, Decode output,
             Print (py_strip (split_aux (instruction_prompt (concat lines) q) [] out ! 1))])"
proof -
  obtain t where t: "PROMPT_DICT ''prompt_no_input'' = Some t"
    using PROMPT_DICT_defined by blast
  show ?thesis
    using assms t by (simp add: response_path instruction_prompt_not_Nil)
qed


section \<open>The claims\<close>

subsection \<open>The token limit\<close>

text \<open>
  C1. For an uploaded file whose name ends in \<open>.txt\<close> and that can be read, and a question,
  such that the formatted prompt has more than 32768 tokens, the closure returns the message
  that names the limit 32768 and the number of tokens, and the trace of calls holds the read
  and the tokenization only: the generation routine is not called. With exactly 32768 tokens
  the request is not rejected: the generation routine is called on these tokens.
\<close>

theorem token_limit_guard:
  assumes "suffix ''.txt'' (name f)"
    and "open_file e (name f) = Inr lines"
    and "tokenizer e (instruction_prompt (concat lines) q) = Inr ids"
  shows "(32768 < length ids \<longrightarrow>
            response e kw (Some f) q =
              (Inr (''This demo supports tokens less than 32768, while the current is '' @
                    str_of_nat (length ids) @ ''. Please use material with less tokens.''),
               [Open (name f), Tokenize (instruction_prompt (concat lines) q)]) \<and>
            (\<forall>i k. Generate i k \<notin> set (snd (response e kw (Some f) q)))) \<and>
         (length ids = 32768 \<longrightarrow> Generate ids kw \<in> set (snd (response e kw (Some f) q)))"
proof -
  have ext: "last (split_aux ''.'' [] (name f)) = ''txt''"
    using assms(1) by (simp add: ext_txt_iff)
  note a = ext assms(2) assms(3)
  have over: "Generate i k \<notin> set (snd (response e kw (Some f) q))"
    if "32768 < length ids" for i k
    using response_too_long [OF a that, of kw] by simp
  have at_limit: "Generate ids kw \<in> set (snd (response e kw (Some f) q))"
    if eq: "length ids = 32768"
  proof -
    have le: "length ids \<le> 32768"
      using eq by simp
    show ?thesis
    proof (cases "model_generate e ids kw")
      case (Inl err)
      show ?thesis
        using response_generate_error [OF a le Inl] by simp
    next
      case gen: (Inr generated)
      show ?thesis
      proof (cases "tokenizer_decode e generated")
        case (Inl err)
        show ?thesis
          using response_decode_error [OF a le gen Inl] by simp
      next
        case dec: (Inr out)
        show ?thesis
        proof (cases "sublist (instruction_prompt (concat lines) q) out")
          case True
          show ?thesis
            using response_generated [OF a le gen dec True] by simp
        next
          case False
          show ?thesis
            using response_index_error [OF a le gen dec False] by simp
        qed
      qed
    qed
  qed
  show ?thesis
    using response_too_long [OF a, of kw] over at_limit by blast
qed

theorem token_limit_guard_witness:
  "response (fixed_env 32769 []) default_kwargs (Some \<lparr>name = ''a.txt''\<rparr>) ''q'' =
     (Inr (''This demo supports tokens less than 32768, while the current is 32769. '' @
           ''Please use material with less tokens.''),
      [Open ''a.txt'', Tokenize (instruction_prompt ''document'' ''q'')]) \<and>
   Generate (replicate 32768 0) default_kwargs
     \<in> set (snd (response (fixed_env 32768 []) default_kwargs
                   (Some \<lparr>name = ''a.txt''\<rparr>) ''q''))"
proof -
  have s: "suffix ''.txt'' (name \<lparr>name = ''a.txt''\<rparr>)"
    by (simp add: suffix_to_prefix)
  have o1: "open_file (fixed_env 32769 []) (name \<lparr>name = ''a.txt''\<rparr>) = Inr [''doc'', ''ument'']"
    by (simp add: fixed_env_def)
  have t1: "tokenizer (fixed_env 32769 []) (instruction_prompt (concat [''doc'', ''ument'']) ''q'')
              = Inr (replicate 32769 0)"
    by (simp add: fixed_env_def)
  have o2: "open_file (fixed_env 32768 []) (name \<lparr>name = ''a.txt''\<rparr>) = Inr [''doc'', ''ument'']"
    by (simp add: fixed_env_def)
  have t2: "tokenizer (fixed_env 32768 []) (instruction_prompt (concat [''doc'', ''ument'']) ''q'')
              = Inr (replicate 32768 0)"
    by (simp add: fixed_env_def)
  have n: "str_of_nat 32769 = ''32769''"
    by (simp add: str_of_nat.simps digit_char_def)
  show ?thesis
    using token_limit_guard [OF s o1 t1, of default_kwargs]
      token_limit_guard [OF s o2 t2, of default_kwargs] n
    by simp
qed

subsection \<open>The file-name check\<close>

text \<open>
  C2, as stated: every file whose name does not end in \<open>.txt\<close> is answered with
  \<open>Only support txt file.\<close> The closure compares the last piece of the name, split at the
  dots, with \<open>txt\<close>. The name \<open>txt\<close> has no dot, is its own last piece, and passes the
  check although it does not end in \<open>.txt\<close>: the file is read and an answer is generated.
\<close>

theorem txt_name_counterexample:
  "\<not> suffix ''.txt'' (name \<lparr>name = ''txt''\<rparr>) \<and>
   response (fixed_env 3 (instruction_prompt ''document'' ''q'' @ '' ok''))
     default_kwargs (Some \<lparr>name = ''txt''\<rparr>) ''q'' =
     (Inr ''ok'',
      [Open ''txt'', Tokenize (instruction_prompt ''document'' ''q''), EmptyCache,
       Generate [0, 0, 0] default_kwargs, Decode [0, 0, 0, 1], Print ''ok'']) \<and>
   ''ok'' \<noteq> ''Only support txt file.''"
  by (simp add: response_def fixed_env_def py_split_def py_index_def read_txt_file_def
      PROMPT_DICT_def instruction_prompt_def py_strip_def is_space_def split_aux.simps
      numeral_3_eq_3 suffix_to_prefix)

text \<open>
  C2, amended: for every uploaded file whose name neither ends in \<open>.txt\<close> nor is
  \<open>txt\<close> itself, the closure returns exactly \<open>Only support txt file.\<close> and calls
  nothing; for every file whose name ends in \<open>.txt\<close> (or is \<open>txt\<close>) the rejection
  branch is not taken: the first thing the closure does is to open the file.
\<close>

theorem txt_extension_gate:
  "(\<not> suffix ''.txt'' (name f) \<and> name f \<noteq> ''txt'' \<longrightarrow>
      response e kw (Some f) q = (Inr ''Only support txt file.'', [])) \<and>
   (suffix ''.txt'' (name f) \<or> name f = ''txt'' \<longrightarrow>
      (\<exists>tr. snd (response e kw (Some f) q) = Open (name f) # tr))"
proof (intro conjI impI)
  assume "\<not> suffix ''.txt'' (name f) \<and> name f \<noteq> ''txt''"
  then have "last (split_aux ''.'' [] (name f)) \<noteq> ''txt''"
    by (simp add: ext_txt_iff)
  then show "response e kw (Some f) q = (Inr ''Only support txt file.'', [])"
    by (rule response_reject)
next
  assume "suffix ''.txt'' (name f) \<or> name f = ''txt''"
  then have ext: "last (split_aux ''.'' [] (name f)) = ''txt''"
    by (simp add: ext_txt_iff)
  show "\<exists>tr. snd (response e kw (Some f) q) = Open (name f) # tr"
  proof (cases "open_file e (name f)")
    case (Inl err)
    show ?thesis
      using response_open_error [OF ext Inl] by simp
  next
    case opened: (Inr lines)
    note a = ext opened
    show ?thesis
    proof (cases "tokenizer e (instruction_prompt (concat lines) q)")
      case (Inl err)
      show ?thesis
        using response_tokenizer_error [OF a Inl] by simp
    next
      case tok: (Inr ids)
      note b = a tok
      show ?thesis
      proof (cases "32768 < length ids")
        case True
        show ?thesis
          using response_too_long [OF b True] by simp
      next
        case False
        then have le: "length ids \<le> 32768"
          by simp
        show ?thesis
        proof (cases "model_generate e ids kw")
          case (Inl err)
          show ?thesis
            using response_generate_error [OF b le Inl] by simp
        next
          case gen: (Inr generated)
          show ?thesis
          proof (cases "tokenizer_decode e generated")
            case (Inl err)
            show ?thesis
              using response_decode_error [OF b le gen Inl] by simp
          next
            case dec: (Inr out)
            show ?thesis
            proof (cases "sublist (instruction_prompt (concat lines) q) out")
              case True
              show ?thesis
                using response_generated [OF b le gen dec True] by simp
            next
              case False
              show ?thesis
                using response_index_error [OF b le gen dec False] by simp
            qed
          qed
        qed
      qed
    qed
  qed
qed

theorem txt_extension_gate_witness:
  "response (fixed_env 3 []) default_kwargs (Some \<lparr>name = ''notes.pdf''\<rparr>) ''q'' =
     (Inr ''Only support txt file.'', []) \<and>
   (\<exists>tr. snd (response (fixed_env 3 []) default_kwargs (Some \<lparr>name = ''a.txt''\<rparr>) ''q'') =
      Open ''a.txt'' # tr)"
proof -
  have r: "\<not> suffix ''.txt'' (name \<lparr>name = ''notes.pdf''\<rparr>) \<and>
           name \<lparr>name = ''notes.pdf''\<rparr> \<noteq> ''txt''"
    by (simp add: suffix_to_prefix)
  have s: "suffix ''.txt'' (name \<lparr>name = ''a.txt''\<rparr>) \<or> name \<lparr>name = ''a.txt''\<rparr> = ''txt''"
    by (simp add: suffix_to_prefix)
  show ?thesis
    using txt_extension_gate [of "\<lparr>name = ''notes.pdf''\<rparr>" "fixed_env 3 []" default_kwargs "''q''"]
      txt_extension_gate [of "\<lparr>name = ''a.txt''\<rparr>" "fixed_env 3 []" default_kwargs "''q''"]
      r s
    by simp
qed

text \<open>
  C8. Without an uploaded file the closure returns exactly \<open>Only support txt file.\<close>; the
  trace of calls is empty: no file is read, and neither the tokenizer nor the model is called.
\<close>

theorem response_without_material:
  "response e kw None q = (Inr ''Only support txt file.'', [])"
  by (simp add: response_def)

subsection \<open>No truncation\<close>

text \<open>
  C3, as stated: on a prompt of more than 32768 tokens the closure truncates the prompt and
  calls the generation routine. At a prompt of 32769 tokens the closure returns the message
  about the limit, and its trace holds the read and the tokenization only.
\<close>

theorem truncation_counterexample:
  "response (fixed_env 32769 []) default_kwargs (Some \<lparr>name = ''a.txt''\<rparr>) ''q'' =
     (Inr (''This demo supports tokens less than 32768, while the current is 32769. '' @
           ''Please use material with less tokens.''),
      [Open ''a.txt'', Tokenize (instruction_prompt ''document'' ''q'')])"
  by (simp add: response_def fixed_env_def py_split_def py_index_def read_txt_file_def
      PROMPT_DICT_def instruction_prompt_def split_aux.simps str_of_nat.simps digit_char_def)

text \<open>
  C3, amended: on a prompt of more than 32768 tokens the closure refuses the request: it
  returns a message and the generation routine is not called. The closure truncates nothing:
  whenever the generation routine is called, it is called with the complete token sequence of
  the prompt (and the keyword arguments of the closure), which then has at most 32768 tokens.
\<close>

theorem overflow_refused_not_truncated:
  assumes "suffix ''.txt'' (name f)"
    and "open_file e (name f) = Inr lines"
    and "tokenizer e (instruction_prompt (concat lines) q) = Inr ids"
  shows "(32768 < length ids \<longrightarrow>
            (\<exists>msg. fst (response e kw (Some f) q) = Inr msg) \<and>
            (\<forall>i k. Generate i k \<notin> set (snd (response e kw (Some f) q)))) \<and>
         (\<forall>i k. Generate i k \<in> set (snd (response e kw (Some f) q)) \<longrightarrow>
            i = ids \<and> k = kw \<and> length ids \<le> 32768)"
proof -
  have ext: "last (split_aux ''.'' [] (name f)) = ''txt''"
    using assms(1) by (simp add: ext_txt_iff)
  note b = ext assms(2) assms(3)
  show ?thesis
  proof (cases "32768 < length ids")
    case True
    show ?thesis
      using response_too_long [OF b True, of kw] True by simp
  next
    case False
    then have le: "length ids \<le> 32768"
      by simp
    show ?thesis
    proof (cases "model_generate e ids kw")
      case (Inl err)
      show ?thesis
        using response_generate_error [OF b le Inl] le by simp
    next
      case gen: (Inr generated)
      show ?thesis
      proof (cases "tokenizer_decode e generated")
        case (Inl err)
        show ?thesis
          using response_decode_error [OF b le gen Inl] le by simp
      next
        case dec: (Inr out)
        show ?thesis
        proof (cases "sublist (instruction_prompt (concat lines) q) out")
          case True
          show ?thesis
            using response_generated [OF b le gen dec True] le by simp
        next
          case False
          show ?thesis
            using response_index_error [OF b le gen dec False] le by simp
        qed
      qed
    qed
  qed
qed

theorem overflow_refused_not_truncated_witness:
  "(\<exists>msg. fst (response (fixed_env 40000 []) default_kwargs
               (Some \<lparr>name = ''a.txt''\<rparr>) ''q'') = Inr msg) \<and>
   Generate (replicate 32768 0) default_kwargs
      \<notin> set (snd (response (fixed_env 40000 []) default_kwargs
                    (Some \<lparr>name = ''a.txt''\<rparr>) ''q'')) \<and>
   Generate (replicate 5 0) default_kwargs
      \<in> set (snd (response (fixed_env 5 []) default_kwargs
                    (Some \<lparr>name = ''a.txt''\<rparr>) ''q'')) \<and>
   length (replicate 5 (0::nat)) \<le> 32768"
proof -
  have s: "suffix ''.txt'' (name \<lparr>name = ''a.txt''\<rparr>)"
    by (simp add: suffix_to_prefix)
  have o1: "open_file (fixed_env 40000 []) (name \<lparr>name = ''a.txt''\<rparr>) = Inr [''doc'', ''ument'']"
    by (simp add: fixed_env_def)
  have t1: "tokenizer (fixed_env 40000 []) (instruction_prompt (concat [''doc'', ''ument'']) ''q'')
              = Inr (replicate 40000 0)"
    by (simp add: fixed_env_def)
  have o2: "open_file (fixed_env 5 []) (name \<lparr>name = ''a.txt''\<rparr>) = Inr [''doc'', ''ument'']"
    by (simp add: fixed_env_def)
  have t2: "tokenizer (fixed_env 5 []) (instruction_prompt (concat [''doc'', ''ument'']) ''q'')
              = Inr (replicate 5 0)"
    by (simp add: fixed_env_def)
  have called: "Generate (replicate 5 0) default_kwargs
      \<in> set (snd (response (fixed_env 5 []) default_kwargs
                    (Some \<lparr>name = ''a.txt''\<rparr>) ''q''))"
    by (simp add: response_def fixed_env_def py_split_def py_index_def read_txt_file_def
        PROMPT_DICT_def instruction_prompt_def split_aux.simps)
  have over: "32768 < length (replicate 40000 (0::nat))"
    by simp
  have refused: "(\<exists>msg. fst (response (fixed_env 40000 []) default_kwargs
                    (Some \<lparr>name = ''a.txt''\<rparr>) ''q'') = Inr msg) \<and>
      Generate (replicate 32768 0) default_kwargs
        \<notin> set (snd (response (fixed_env 40000 []) default_kwargs
                      (Some \<lparr>name = ''a.txt''\<rparr>) ''q''))"
    using overflow_refused_not_truncated [OF s o1 t1, of default_kwargs] over by blast
  have complete: "length (replicate 5 (0::nat)) \<le> 32768"
    using overflow_refused_not_truncated [OF s o2 t2, of default_kwargs] called by blast
  show ?thesis
    using refused called complete by blast
qed

subsection \<open>The set-up in \<open>main\<close>\<close>

text \<open>
  C4, as stated: for every \<open>max_position_embeddings\<close> \<open>m\<close> other than zero and every
  \<open>--context_size\<close> \<open>c > m\<close>, \<open>main\<close> sets the factor \<open>ceil (c / m)\<close>. The quotient is a
  double. For \<open>c = 10 ^ 16 + 1\<close> and \<open>m = 10 ^ 16\<close> it is rounded to \<open>1\<close>, so the factor
  is \<open>1\<close>, while the ceiling of \<open>c / m\<close> is \<open>2\<close>. For \<open>c = 2 ^ 1024\<close> and \<open>m = 1\<close> the
  division raises \<open>OverflowError\<close> and \<open>main\<close> sets nothing.
\<close>

theorem rope_scaling_counterexample:
  "main \<lparr>base_model = ''llama'', cache_dir = ''./cache'', context_size = 10 ^ 16 + 1,
         flash_attn = True, temperature = 6 / 10, top_p = 9 / 10, max_gen_len = 512\<rparr>
        \<lparr>max_position_embeddings = Some (10 ^ 16), rope_scaling = None\<rparr> =
     Inr \<lparr>model_config =
            \<lparr>max_position_embeddings = Some (10 ^ 16),
             rope_scaling = Some \<lparr>rope_type = ''linear'', rope_factor = 1\<rparr>\<rparr>,
          model_max_length = 10 ^ 16 + 1\<rparr> \<and>
   \<lceil>real_of_int (10 ^ 16 + 1) / real_of_int (10 ^ 16)\<rceil> = 2 \<and>
   main \<lparr>base_model = ''llama'', cache_dir = ''./cache'', context_size = 2 ^ 1024,
         flash_attn = True, temperature = 6 / 10, top_p = 9 / 10, max_gen_len = 512\<rparr>
        \<lparr>max_position_embeddings = Some 1, rope_scaling = None\<rparr> = Inl OverflowError"
proof -
  have d: "true_divide (10 ^ 16 + 1) (10 ^ 16) = Inr 1"
    by (simp add: true_divide_def nearest_double_def binary_exponent_def round_half_even_def
        bit_length.simps Let_def)
  have o: "true_divide (2 ^ 1024) 1 = Inl OverflowError"
    by (rule true_divide_overflow) simp_all
  show ?thesis
    using d o by (simp add: main_def)
qed

text \<open>
  C4, amended: for every configuration whose \<open>max_position_embeddings\<close> is a number \<open>m\<close>
  other than zero and every \<open>--context_size\<close> \<open>c\<close>: if \<open>c > m\<close> and both numbers are below
  \<open>2 ^ 53\<close> in magnitude, \<open>main\<close> goes on to load the model with the \<open>rope_scaling\<close> set to
  the linear scaling with factor \<open>ceil (c / m)\<close> (the ceiling of the exact quotient); if
  \<open>c \<le> m\<close>, it goes on with the configuration left unchanged.
\<close>

theorem rope_scaling_factor:
  assumes "max_position_embeddings cfg = Some m"
    and "m \<noteq> 0"
  shows "(m < context_size a \<and> \<bar>context_size a\<bar> < 2 ^ 53 \<and> \<bar>m\<bar> < 2 ^ 53 \<longrightarrow>
            (\<exists>r. main a cfg = Inr r \<and>
               max_position_embeddings (model_config r) = Some m \<and>
               rope_scaling (model_config r) =
                 Some \<lparr>rope_type = ''linear'',
                       rope_factor =
                         of_int \<lceil>real_of_int (context_size a) / real_of_int m\<rceil>\<rparr>)) \<and>
         (context_size a \<le> m \<longrightarrow> (\<exists>r. main a cfg = Inr r \<and> model_config r = cfg))"
proof (intro conjI impI)
  assume h: "m < context_size a \<and> \<bar>context_size a\<bar> < 2 ^ 53 \<and> \<bar>m\<bar> < 2 ^ 53"
  then obtain x where x: "true_divide (context_size a) m = Inr x"
    and c: "\<lceil>x\<rceil> = \<lceil>real_of_int (context_size a) / real_of_int m\<rceil>"
    using true_divide_small [OF assms(2), of "context_size a"] by blast
  show "\<exists>r. main a cfg = Inr r \<and>
          max_position_embeddings (model_config r) = Some m \<and>
          rope_scaling (model_config r) =
            Some \<lparr>rope_type = ''linear'',
                  rope_factor = of_int \<lceil>real_of_int (context_size a) / real_of_int m\<rceil>\<rparr>"
    using assms h x c by (simp add: main_def)
next
  assume "context_size a \<le> m"
  then show "\<exists>r. main a cfg = Inr r \<and> model_config r = cfg"
    using assms by (simp add: main_def)
qed

theorem rope_scaling_factor_witness:
  "(\<exists>r. main \<lparr>base_model = ''llama'', cache_dir = ''./cache'', context_size = 10000,
              flash_attn = True, temperature = 6 / 10, top_p = 9 / 10, max_gen_len = 512\<rparr>
            \<lparr>max_position_embeddings = Some 4096, rope_scaling = None\<rparr> = Inr r \<and>
        rope_scaling (model_config r) = Some \<lparr>rope_type = ''linear'', rope_factor = 3\<rparr>) \<and>
   (\<exists>r. main \<lparr>base_model = ''llama'', cache_dir = ''./cache'', context_size = - 1,
              flash_attn = True, temperature = 6 / 10, top_p = 9 / 10, max_gen_len = 512\<rparr>
            \<lparr>max_position_embeddings = Some 4096, rope_scaling = None\<rparr> = Inr r \<and>
        rope_scaling (model_config r) = None)"
proof -
  have m: "max_position_embeddings \<lparr>max_position_embeddings = Some 4096, rope_scaling = None\<rparr>
             = Some 4096"
    by simp
  have z: "(4096 :: int) \<noteq> 0"
    by simp
  show ?thesis
    using rope_scaling_factor [OF m z,
        of "\<lparr>base_model = ''llama'', cache_dir = ''./cache'', context_size = 10000,
              flash_attn = True, temperature = 6 / 10, top_p = 9 / 10, max_gen_len = 512\<rparr>"]
      rope_scaling_factor [OF m z,
        of "\<lparr>base_model = ''llama'', cache_dir = ''./cache'', context_size = - 1,
              flash_attn = True, temperature = 6 / 10, top_p = 9 / 10, max_gen_len = 512\<rparr>"]
    by auto
qed

text \<open>
  C10. Whenever \<open>main\<close> builds the tokenizer, the \<open>model_max_length\<close> it gives to it is
  \<open>--context_size\<close> if that exceeds \<open>max_position_embeddings\<close> and
  \<open>max_position_embeddings\<close> otherwise, that is their maximum. The comparison is not
  guarded: with a configuration that does not define \<open>max_position_embeddings\<close>, \<open>main\<close>
  fails with \<open>TypeError\<close> instead of building the tokenizer, whatever the other values are.
  With \<open>max_position_embeddings\<close> defined, \<open>main\<close> builds the tokenizer for every
  \<open>--context_size\<close> below \<open>2 ^ 53\<close> in magnitude (and for every one that asks for no
  scaling); the only failure left is the \<open>OverflowError\<close> of the division in the scaling
  step.
\<close>

theorem model_max_length_needs_ctx_len:
  "(max_position_embeddings cfg = None \<longrightarrow> main a cfg = Inl TypeError) \<and>
   (\<forall>m. max_position_embeddings cfg = Some m \<longrightarrow>
      (\<forall>r. main a cfg = Inr r \<longrightarrow>
         model_max_length r = (if context_size a > m then context_size a else m) \<and>
         model_max_length r = max (context_size a) m) \<and>
      (\<forall>err. main a cfg = Inl err \<longrightarrow> err = OverflowError) \<and>
      (context_size a \<le> m \<or> m = 0 \<or> \<bar>context_size a\<bar> < 2 ^ 53 \<longrightarrow>
         (\<exists>r. main a cfg = Inr r)))"
proof (intro conjI allI impI)
  assume "max_position_embeddings cfg = None"
  then show "main a cfg = Inl TypeError"
    by (simp add: main_def)
next
  fix m r
  assume "max_position_embeddings cfg = Some m" and "main a cfg = Inr r"
  then have "model_max_length r = (if context_size a > m then context_size a else m)"
    by (auto simp: main_def split: if_splits sum.splits)
  then show "model_max_length r = (if context_size a > m then context_size a else m)"
    and "model_max_length r = max (context_size a) m"
    by simp_all
next
  fix m err
  assume "max_position_embeddings cfg = Some m" and "main a cfg = Inl err"
  then show "err = OverflowError"
    by (auto simp: main_def split: if_splits sum.splits dest: true_divide_error)
next
  fix m
  assume m: "max_position_embeddings cfg = Some m"
    and h: "context_size a \<le> m \<or> m = 0 \<or> \<bar>context_size a\<bar> < 2 ^ 53"
  show "\<exists>r. main a cfg = Inr r"
  proof (cases "m \<noteq> 0 \<and> m < context_size a")
    case True
    then have "\<bar>context_size a\<bar> < 2 ^ 53"
      using h by auto
    then obtain x where "true_divide (context_size a) m = Inr x"
      using True true_divide_returns [of m "context_size a"] by blast
    then show ?thesis
      using m True by (simp add: main_def)
  next
    case False
    then show ?thesis
      using m by (auto simp: main_def)
  qed
qed

theorem model_max_length_needs_ctx_len_witness:
  "main \<lparr>base_model = ''llama'', cache_dir = ''./cache'', context_size = 32768,
         flash_attn = True, temperature = 6 / 10, top_p = 9 / 10, max_gen_len = 512\<rparr>
        \<lparr>max_position_embeddings = None, rope_scaling = None\<rparr> = Inl TypeError \<and>
   (\<exists>r. main \<lparr>base_model = ''llama'', cache_dir = ''./cache'', context_size = 32768,
              flash_attn = True, temperature = 6 / 10, top_p = 9 / 10, max_gen_len = 512\<rparr>
            \<lparr>max_position_embeddings = Some 4096, rope_scaling = None\<rparr> = Inr r \<and>
        model_max_length r = 32768)"
proof -
  let ?a = "\<lparr>base_model = ''llama'', cache_dir = ''./cache'', context_size = 32768,
              flash_attn = True, temperature = 6 / 10, top_p = 9 / 10, max_gen_len = 512\<rparr>"
  let ?none = "\<lparr>max_position_embeddings = None, rope_scaling = None\<rparr>"
  let ?some = "\<lparr>max_position_embeddings = Some 4096, rope_scaling = None\<rparr>"
  have n: "max_position_embeddings ?none = None"
    by simp
  have m: "max_position_embeddings ?some = Some 4096"
    by simp
  have small: "context_size ?a \<le> 4096 \<or> (4096::int) = 0 \<or> \<bar>context_size ?a\<bar> < 2 ^ 53"
    by simp
  have first: "main ?a ?none = Inl TypeError"
    using model_max_length_needs_ctx_len [of ?none ?a] n by blast
  obtain r where r: "main ?a ?some = Inr r"
    using model_max_length_needs_ctx_len [of ?some ?a] m small by blast
  then have "model_max_length r = max (context_size ?a) 4096"
    using model_max_length_needs_ctx_len [of ?some ?a] m by blast
  then have "model_max_length r = 32768"
    by simp
  then show ?thesis
    using first r by blast
qed

subsection \<open>The prompt\<close>

text \<open>
  C7. For every readable file with a name ending in \<open>.txt\<close>, with content \<open>d\<close> (the
  concatenation of its lines), and every question \<open>q\<close>, the closure calls the tokenizer,
  right after reading the file, on exactly the fixed template text with \<open>{instruction}\<close>
  replaced by \<open>d\<close>, a newline and \<open>q\<close>; this text is what \<open>format_map\<close> makes of the
  template stored in \<open>PROMPT_DICT\<close>, and the tokenizer is called on no other text.
\<close>

theorem prompt_is_template:
  assumes "suffix ''.txt'' (name f)"
    and "open_file e (name f) = Inr lines"
  shows "(\<exists>t. PROMPT_DICT ''prompt_no_input'' = Some t \<and>
            format_map t [''instruction'' \<mapsto> concat lines @ ''\<newline>'' @ q] =
              Inr (''Below is an instruction that describes a task. '' @
                   ''Write a response that appropriately completes the request.'' @
                   ''\<newline>\<newline>### Instruction:\<newline>'' @
                   concat lines @ ''\<newline>'' @ q @
                   ''\<newline>\<newline>### Response:'')) \<and>
         (\<exists>tr. snd (response e kw (Some f) q) =
            Open (name f) #
            Tokenize (''Below is an instruction that describes a task. '' @
                      ''Write a response that appropriately completes the request.'' @
                      ''\<newline>\<newline>### Instruction:\<newline>'' @
                      concat lines @ ''\<newline>'' @ q @
                      ''\<newline>\<newline>### Response:'') # tr \<and>
            (\<forall>p. Tokenize p \<notin> set tr))"
proof -
  let ?P = "instruction_prompt (concat lines) q"
  have P: "''Below is an instruction that describes a task. '' @
           ''Write a response that appropriately completes the request.'' @
           ''\<newline>\<newline>### Instruction:\<newline>'' @
           concat lines @ ''\<newline>'' @ q @ ''\<newline>\<newline>### Response:'' = ?P"
    by (simp add: instruction_prompt_def)
  obtain t where t: "PROMPT_DICT ''prompt_no_input'' = Some t"
    using PROMPT_DICT_defined by blast
  have fmt: "\<exists>t. PROMPT_DICT ''prompt_no_input'' = Some t \<and>
               format_map t [''instruction'' \<mapsto> concat lines @ ''\<newline>'' @ q] = Inr ?P"
    using t format_map_prompt [OF t] by blast
  have ext: "last (split_aux ''.'' [] (name f)) = ''txt''"
    using assms(1) by (simp add: ext_txt_iff)
  note a = ext assms(2)
  have tr: "\<exists>tr. snd (response e kw (Some f) q) = Open (name f) # Tokenize ?P # tr \<and>
                 (\<forall>p. Tokenize p \<notin> set tr)"
  proof (cases "tokenizer e ?P")
    case (Inl err)
    show ?thesis
      using response_tokenizer_error [OF a Inl] by simp
  next
    case tok: (Inr ids)
    note b = a tok
    show ?thesis
    proof (cases "32768 < length ids")
      case True
      show ?thesis
        using response_too_long [OF b True] by simp
    next
      case False
      then have le: "length ids \<le> 32768"
        by simp
      show ?thesis
      proof (cases "model_generate e ids kw")
        case (Inl err)
        show ?thesis
          using response_generate_error [OF b le Inl] by simp
      next
        case gen: (Inr generated)
        show ?thesis
        proof (cases "tokenizer_decode e generated")
          case (Inl err)
          show ?thesis
            using response_decode_error [OF b le gen Inl] by simp
        next
          case dec: (Inr out)
          show ?thesis
          proof (cases "sublist ?P out")
            case True
            show ?thesis
              using response_generated [OF b le gen dec True] by simp
          next
            case False
            show ?thesis
              using response_index_error [OF b le gen dec False] by simp
          qed
        qed
      qed
    qed
  qed
  show ?thesis
    unfolding P using fmt tr by blast
qed

theorem prompt_is_template_witness:
  "\<exists>tr. snd (response (fixed_env 3 []) default_kwargs (Some \<lparr>name = ''a.txt''\<rparr>) ''q?'') =
     Open ''a.txt'' #
     Tokenize (''Below is an instruction that describes a task. '' @
               ''Write a response that appropriately completes the request.'' @
               ''\<newline>\<newline>### Instruction:\<newline>document\<newline>q?'' @
               ''\<newline>\<newline>### Response:'') # tr"
proof -
  have s: "suffix ''.txt'' (name \<lparr>name = ''a.txt''\<rparr>)"
    by (simp add: suffix_to_prefix)
  have o: "open_file (fixed_env 3 []) (name \<lparr>name = ''a.txt''\<rparr>) = Inr [''doc'', ''ument'']"
    by (simp add: fixed_env_def)
  show ?thesis
    using prompt_is_template [OF s o, of "''q?''" default_kwargs] by auto
qed

subsection \<open>Cutting the prompt off the decoded output\<close>

text \<open>
  C9. When the closure reaches the step that cuts the prompt off (the file is accepted and
  read, the prompt is within the limit, generation and decoding return), element 1 of the
  decoded output split at the prompt exists exactly if the decoded output contains the prompt
  as a substring. If it does, the closure returns a text; if it does not, the closure fails
  with \<open>IndexError\<close>.
\<close>

theorem prompt_split_index:
  assumes "suffix ''.txt'' (name f)"
    and "open_file e (name f) = Inr lines"
    and "tokenizer e (instruction_prompt (concat lines) q) = Inr ids"
    and "length ids \<le> 32768"
    and "model_generate e ids kw = Inr generated"
    and "tokenizer_decode e generated = Inr out"
  shows "(\<exists>pieces. py_split out (instruction_prompt (concat lines) q) = Inr pieces \<and>
            ((\<exists>piece. py_index pieces 1 = Inr piece) =
               sublist (instruction_prompt (concat lines) q) out) \<and>
            ((py_index pieces 1 = Inl IndexError) =
               (\<not> sublist (instruction_prompt (concat lines) q) out))) \<and>
         (sublist (instruction_prompt (concat lines) q) out \<longrightarrow>
            (\<exists>s. fst (response e kw (Some f) q) = Inr s)) \<and>
         (\<not> sublist (instruction_prompt (concat lines) q) out \<longrightarrow>
            fst (response e kw (Some f) q) = Inl IndexError)"
proof -
  let ?P = "instruction_prompt (concat lines) q"
  have ext: "last (split_aux ''.'' [] (name f)) = ''txt''"
    using assms(1) by (simp add: ext_txt_iff)
  note b = ext assms(2-6)
  have ne: "?P \<noteq> []"
    by (rule instruction_prompt_not_Nil)
  have len: "(2 \<le> length (split_aux ?P [] out)) = sublist ?P out"
    using ne by (rule length_split_aux)
  have split: "py_split out ?P = Inr (split_aux ?P [] out)"
    using ne by (simp add: py_split_def)
  have idx: "((\<exists>piece. py_index (split_aux ?P [] out) 1 = Inr piece) = sublist ?P out) \<and>
             ((py_index (split_aux ?P [] out) 1 = Inl IndexError) = (\<not> sublist ?P out))"
    using len by (simp add: py_index_1)
  have yes: "\<exists>s. fst (response e kw (Some f) q) = Inr s" if "sublist ?P out"
    using response_generated [OF b that] by simp
  have no: "fst (response e kw (Some f) q) = Inl IndexError" if "\<not> sublist ?P out"
    using response_index_error [OF b that] by simp
  show ?thesis
    using split idx yes no by blast
qed

theorem prompt_split_index_witness:
  "fst (response (fixed_env 3 ''no prompt here'') default_kwargs
          (Some \<lparr>name = ''a.txt''\<rparr>) ''q'') = Inl IndexError \<and>
   (\<exists>s. fst (response (fixed_env 3 (''x'' @ instruction_prompt ''document'' ''q'' @ ''y''))
               default_kwargs (Some \<lparr>name = ''a.txt''\<rparr>) ''q'') = Inr s)"
proof -
  let ?f = "\<lparr>name = ''a.txt''\<rparr>"
  let ?P = "instruction_prompt (concat [''doc'', ''ument'']) ''q''"
  let ?e1 = "fixed_env 3 ''no prompt here''"
  let ?e2 = "fixed_env 3 (''x'' @ instruction_prompt ''document'' ''q'' @ ''y'')"
  have s: "suffix ''.txt'' (name ?f)"
    by (simp add: suffix_to_prefix)
  have l: "length (replicate 3 (0::nat)) \<le> 32768"
    by simp
  have o1: "open_file ?e1 (name ?f) = Inr [''doc'', ''ument'']"
    and t1: "tokenizer ?e1 ?P = Inr (replicate 3 0)"
    and g1: "model_generate ?e1 (replicate 3 0) default_kwargs = Inr (replicate 3 0 @ [1])"
    and d1: "tokenizer_decode ?e1 (replicate 3 0 @ [1]) = Inr ''no prompt here''"
    by (simp_all add: fixed_env_def)
  have o2: "open_file ?e2 (name ?f) = Inr [''doc'', ''ument'']"
    and t2: "tokenizer ?e2 ?P = Inr (replicate 3 0)"
    and g2: "model_generate ?e2 (replicate 3 0) default_kwargs = Inr (replicate 3 0 @ [1])"
    and d2: "tokenizer_decode ?e2 (replicate 3 0 @ [1]) =
               Inr (''x'' @ instruction_prompt ''document'' ''q'' @ ''y'')"
    by (simp_all add: fixed_env_def)
  have n1: "\<not> sublist ?P ''no prompt here''"
  proof
    assume "sublist ?P ''no prompt here''"
    then have "length ?P \<le> length ''no prompt here''"
      by (rule sublist_length_le)
    then show False
      by (simp add: instruction_prompt_def)
  qed
  have c: "?P = instruction_prompt ''document'' ''q''"
    by simp
  have y2: "sublist ?P (''x'' @ instruction_prompt ''document'' ''q'' @ ''y'')"
    unfolding c by (rule sublist_appendI)
  show ?thesis
    using prompt_split_index [OF s o1 t1 l g1 d1] prompt_split_index [OF s o2 t2 l g2 d2] n1 y2
    by blast
qed

subsection \<open>The returned text\<close>

text \<open>
  C5, as stated: for a valid \<open>.txt\<close> input within the token limit the returned value is
  the decoded output with the prompt prefix removed and the surrounding whitespace stripped.
  When the decoded output is the prompt, \<open>A\<close>, the prompt again and \<open>B\<close>, the closure
  returns \<open>A\<close> only, while the decoded output without its prompt prefix still holds the
  second copy of the prompt and \<open>B\<close>.
\<close>

theorem continuation_counterexample:
  "fst (response
         (fixed_env 3 (instruction_prompt ''document'' ''q'' @ '' A '' @
                       instruction_prompt ''document'' ''q'' @ ''B''))
         default_kwargs (Some \<lparr>name = ''a.txt''\<rparr>) ''q'') = Inr ''A'' \<and>
   prompt_prefix_removed (instruction_prompt ''document'' ''q'')
     (instruction_prompt ''document'' ''q'' @ '' A '' @
      instruction_prompt ''document'' ''q'' @ ''B'') =
     ''A '' @ instruction_prompt ''document'' ''q'' @ ''B'' \<and>
   ''A'' \<noteq> ''A '' @ instruction_prompt ''document'' ''q'' @ ''B''"
  by (simp add: response_def fixed_env_def py_split_def py_index_def read_txt_file_def
      PROMPT_DICT_def instruction_prompt_def py_strip_def is_space_def split_aux.simps
      prompt_prefix_removed_def)

text \<open>
  C5, amended: for a valid \<open>.txt\<close> input within the token limit whose decoded output is
  the prompt followed by a continuation, the returned value is the continuation up to the
  next occurrence of the prompt, with the surrounding whitespace stripped; when the
  continuation does not contain the prompt, it is the whole continuation, stripped.
\<close>

theorem response_continuation:
  assumes "suffix ''.txt'' (name f)"
    and "open_file e (name f) = Inr lines"
    and "tokenizer e (instruction_prompt (concat lines) q) = Inr ids"
    and "length ids \<le> 32768"
    and "model_generate e ids kw = Inr generated"
    and "tokenizer_decode e generated = Inr (instruction_prompt (concat lines) q @ rest)"
  shows "(\<not> sublist (instruction_prompt (concat lines) q) rest \<longrightarrow>
            fst (response e kw (Some f) q) = Inr (py_strip rest)) \<and>
         (sublist (instruction_prompt (concat lines) q) rest \<longrightarrow>
            (\<exists>a b. rest = a @ instruction_prompt (concat lines) q @ b \<and>
               \<not> sublist (instruction_prompt (concat lines) q)
                    (a @ butlast (instruction_prompt (concat lines) q)) \<and>
               fst (response e kw (Some f) q) = Inr (py_strip a)))"
proof -
  let ?P = "instruction_prompt (concat lines) q"
  have ext: "last (split_aux ''.'' [] (name f)) = ''txt''"
    using assms(1) by (simp add: ext_txt_iff)
  have ne: "?P \<noteq> []"
    by (rule instruction_prompt_not_Nil)
  have inside: "sublist ?P (?P @ rest)"
    by (rule sublist_append_rightI)
  have "split_aux ?P [] (?P @ rest) = rev [] # split_aux ?P [] rest"
    using ne by (rule split_aux_at_sep)
  then have "split_aux ?P [] (?P @ rest) ! 1 = split_aux ?P [] rest ! 0"
    by simp
  also have "\<dots> = hd (split_aux ?P [] rest)"
    using split_aux_not_Nil [of ?P "[]" rest] by (simp add: hd_conv_nth)
  finally have piece: "split_aux ?P [] (?P @ rest) ! 1 = hd (split_aux ?P [] rest)" .
  have res: "fst (response e kw (Some f) q) = Inr (py_strip (hd (split_aux ?P [] rest)))"
    using response_generated [OF ext assms(2-6) inside] piece by simp
  obtain a where a: "hd (split_aux ?P [] rest) = rev [] @ a"
    and r: "if sublist ?P rest
            then (\<exists>b. rest = a @ ?P @ b) \<and> \<not> sublist ?P (a @ butlast ?P)
            else a = rest"
    using hd_split_aux [OF ne, of "[]" rest] by blast
  have a': "hd (split_aux ?P [] rest) = a"
    using a by simp
  show ?thesis
  proof (cases "sublist ?P rest")
    case True
    then show ?thesis
      using r res a' by auto
  next
    case False
    then show ?thesis
      using r res a' by simp
  qed
qed

theorem response_continuation_witness:
  "fst (response (fixed_env 3 (instruction_prompt ''document'' ''q'' @ '' ok ''))
          default_kwargs (Some \<lparr>name = ''a.txt''\<rparr>) ''q'') = Inr ''ok'' \<and>
   (\<exists>a b. '' A '' @ instruction_prompt ''document'' ''q'' @ ''B'' =
             a @ instruction_prompt ''document'' ''q'' @ b \<and>
          \<not> sublist (instruction_prompt ''document'' ''q'')
               (a @ butlast (instruction_prompt ''document'' ''q'')) \<and>
          fst (response
                 (fixed_env 3 (instruction_prompt ''document'' ''q'' @ '' A '' @
                               instruction_prompt ''document'' ''q'' @ ''B''))
                 default_kwargs (Some \<lparr>name = ''a.txt''\<rparr>) ''q'') = Inr (py_strip a))"
proof -
  let ?f = "\<lparr>name = ''a.txt''\<rparr>"
  let ?P = "instruction_prompt (concat [''doc'', ''ument'']) ''q''"
  let ?r1 = "'' ok ''"
  let ?r2 = "'' A '' @ instruction_prompt ''document'' ''q'' @ ''B''"
  let ?e1 = "fixed_env 3 (instruction_prompt ''document'' ''q'' @ ?r1)"
  let ?e2 = "fixed_env 3 (instruction_prompt ''document'' ''q'' @ ?r2)"
  have c: "?P = instruction_prompt ''document'' ''q''"
    by simp
  have s: "suffix ''.txt'' (name ?f)"
    by (simp add: suffix_to_prefix)
  have l: "length (replicate 3 (0::nat)) \<le> 32768"
    by simp
  have o1: "open_file ?e1 (name ?f) = Inr [''doc'', ''ument'']"
    and t1: "tokenizer ?e1 ?P = Inr (replicate 3 0)"
    and g1: "model_generate ?e1 (replicate 3 0) default_kwargs = Inr (replicate 3 0 @ [1])"
    and d1: "tokenizer_decode ?e1 (replicate 3 0 @ [1]) = Inr (?P @ ?r1)"
    by (simp_all add: fixed_env_def)
  have o2: "open_file ?e2 (name ?f) = Inr [''doc'', ''ument'']"
    and t2: "tokenizer ?e2 ?P = Inr (replicate 3 0)"
    and g2: "model_generate ?e2 (replicate 3 0) default_kwargs = Inr (replicate 3 0 @ [1])"
    and d2: "tokenizer_decode ?e2 (replicate 3 0 @ [1]) = Inr (?P @ ?r2)"
    by (simp_all add: fixed_env_def)
  have n1: "\<not> sublist ?P ?r1"
  proof
    assume "sublist ?P ?r1"
    then have "length ?P \<le> length ?r1"
      by (rule sublist_length_le)
    then show False
      by (simp add: instruction_prompt_def)
  qed
  have y2: "sublist ?P ?r2"
    unfolding c by (rule sublist_appendI)
  have st: "py_strip ?r1 = ''ok''"
    by (simp add: py_strip_def is_space_def)
  have first: "fst (response ?e1 default_kwargs (Some ?f) ''q'') = Inr ''ok''"
    using response_continuation [OF s o1 t1 l g1 d1] n1 st by simp
  have second: "\<exists>a b. ?r2 = a @ ?P @ b \<and> \<not> sublist ?P (a @ butlast ?P) \<and>
                  fst (response ?e2 default_kwargs (Some ?f) ''q'') = Inr (py_strip a)"
    using response_continuation [OF s o2 t2 l g2 d2] y2 by blast
  show ?thesis
    using first second unfolding c by blast
qed

subsection \<open>The outcomes of the closure\<close>



end
